theory Spec2Isabelle
  imports Main
begin

section \<open>Characters and Python string primitives\<close>

text \<open>
  Python strings are modelled as \<^typ>\<open>string\<close>. The model reads a string as ASCII text:
  on ASCII, Python's Unicode-aware classes \<^verbatim>\<open>\s\<close> and \<^verbatim>\<open>\d\<close>, \<^verbatim>\<open>str.isspace\<close>,
  \<^verbatim>\<open>str.upper\<close> and the case folding of \<^verbatim>\<open>re.I\<close> are the functions below, and
  \<^verbatim>\<open>len\<close> and the offsets of a match count characters.
\<close>

definition is_space :: "char \<Rightarrow> bool" where
  "is_space c = (c \<in> set [CHR 0x09, CHR 0x0A, CHR 0x0B, CHR 0x0C, CHR 0x0D,
                            CHR 0x1C, CHR 0x1D, CHR 0x1E, CHR 0x1F, CHR 0x20])"

definition is_digit :: "char \<Rightarrow> bool" where
  "is_digit c = (c \<in> set ''0123456789'')"

definition upper_char :: "char \<Rightarrow> char" where
  "upper_char c =
     (case map_of (zip ''abcdefghijklmnopqrstuvwxyz'' ''ABCDEFGHIJKLMNOPQRSTUVWXYZ'') c of
        Some u \<Rightarrow> u | None \<Rightarrow> c)"

definition lower_char :: "char \<Rightarrow> char" where
  "lower_char c =
     (case map_of (zip ''ABCDEFGHIJKLMNOPQRSTUVWXYZ'' ''abcdefghijklmnopqrstuvwxyz'') c of
        Some l \<Rightarrow> l | None \<Rightarrow> c)"

definition upper :: "string \<Rightarrow> string" where
  "upper s = map upper_char s"

definition lower :: "string \<Rightarrow> string" where
  "lower s = map lower_char s"

text \<open>\<^verbatim>\<open>re.sub(r'\s', ' ', s)\<close>: every whitespace character becomes one space.\<close>

definition sub_space :: "string \<Rightarrow> string" where
  "sub_space s = map (\<lambda>c. if is_space c then CHR '' '' else c) s"

text \<open>\<^verbatim>\<open>s.strip()\<close>, \<^verbatim>\<open>s.split()\<close> and \<^verbatim>\<open>s.split(d)\<close>.\<close>

definition py_strip :: "string \<Rightarrow> string" where
  "py_strip s = rev (dropWhile is_space (rev (dropWhile is_space s)))"

fun split_ws :: "string \<Rightarrow> string \<Rightarrow> string list" where
  "split_ws cur [] = (if cur = [] then [] else [cur])"
| "split_ws cur (c # cs) =
     (if is_space c then (if cur = [] then split_ws [] cs else cur # split_ws [] cs)
      else split_ws (cur @ [c]) cs)"

definition py_split :: "string \<Rightarrow> string list" where
  "py_split s = split_ws [] s"

fun split_on :: "char \<Rightarrow> string \<Rightarrow> string \<Rightarrow> string list" where
  "split_on d cur [] = [cur]"
| "split_on d cur (c # cs) =
     (if c = d then cur # split_on d [] cs else split_on d (cur @ [c]) cs)"

datatype py_error = AttributeError | IndexError

section \<open>Author parser (convert\_latex\_to\_gorc.process\_authors)\<close>

record author =
  au_first :: string
  au_middle :: "string list"
  au_last :: string
  au_suffix :: string
  au_affiliation :: "(string \<times> string) list option"
  au_email :: "string option"

text \<open>\<^verbatim>\<open>re.sub(r'\sand\s', ',', author_text)\<close>: leftmost, non-overlapping matches.\<close>

fun sub_and :: "string \<Rightarrow> string" where
  "sub_and [] = []"
| "sub_and (c # cs) =
     (if is_space c \<and> take 3 cs = ''and'' \<and> (case drop 3 cs of [] \<Rightarrow> False | d # _ \<Rightarrow> is_space d)
      then CHR '','' # sub_and (drop 4 cs)
      else c # sub_and cs)"

definition suffix_tokens :: "string list" where
  "suffix_tokens = [''Jr'', ''Sr'', ''III'', ''IV'', ''V'']"

text \<open>
  The body of the loop over \<^verbatim>\<open>author_names\<close>. \<^verbatim>\<open>name_parts[-1]\<close> and \<^verbatim>\<open>name_parts[0]\<close>
  raise IndexError on an empty list; \<^verbatim>\<open>name_parts[1:-1]\<close> never raises.
\<close>

definition name_entry :: "bool \<Rightarrow> string \<Rightarrow> py_error + author" where
  "name_entry minimal name =
     (let name_parts = py_split name in
      if name_parts = [] then Inl IndexError
      else
        let suffix = (if last name_parts \<in> set suffix_tokens then last name_parts else []);
            name_parts = (if last name_parts \<in> set suffix_tokens then butlast name_parts
                          else name_parts)
        in if name_parts = [] then Inl IndexError
           else Inr \<lparr> au_first = hd name_parts,
                      au_middle = butlast (tl name_parts),
                      au_last = last name_parts,
                      au_suffix = suffix,
                      au_affiliation = (if minimal then None else Some []),
                      au_email = (if minimal then None else Some []) \<rparr>)"

fun author_loop :: "bool \<Rightarrow> string list \<Rightarrow> author list \<Rightarrow> py_error + author list" where
  "author_loop minimal [] author_entries = Inr author_entries"
| "author_loop minimal (name # names) author_entries =
     (case name_entry minimal name of
        Inl e \<Rightarrow> Inl e
      | Inr entry \<Rightarrow> author_loop minimal names (author_entries @ [entry]))"

text \<open>The comma-separated fragments of the author text, before trimming and filtering.\<close>

definition author_fragments :: "string \<Rightarrow> string list" where
  "author_fragments author_text = split_on (CHR '','') [] (sub_space (sub_and author_text))"

definition author_names :: "string \<Rightarrow> string list" where
  "author_names author_text =
     filter (\<lambda>n. n \<noteq> []) (map py_strip (author_fragments author_text))"

definition process_authors :: "string \<Rightarrow> bool \<Rightarrow> py_error + author list" where
  "process_authors author_text minimal = author_loop minimal (author_names author_text) []"


section \<open>Regular expressions of the two scripts\<close>

text \<open>
  Each pattern is modelled by a matcher that tells whether the pattern matches at the start
  of a string (\<^verbatim>\<open>re.match\<close>); \<^verbatim>\<open>re.search\<close>, \<^verbatim>\<open>re.finditer\<close> and \<^verbatim>\<open>re.sub\<close> scan the
  text from left to right, try the matcher at every position, and continue behind a match.
\<close>

definition backslash :: char where
  "backslash = CHR 0x5C"

definition ci_prefix :: "string \<Rightarrow> string \<Rightarrow> bool" where
  "ci_prefix p s = (lower (take (length p) s) = lower p)"

type_synonym span = "nat \<times> nat \<times> string"

text \<open>\<^verbatim>\<open>(BID\d+)\<close>: the token matched at the start of the string, the digits taken greedily.\<close>

definition match_bid :: "string \<Rightarrow> string option" where
  "match_bid s =
     (if take 3 s = ''BID'' \<and> takeWhile is_digit (drop 3 s) \<noteq> []
      then Some (''BID'' @ takeWhile is_digit (drop 3 s)) else None)"

text \<open>
  \<^verbatim>\<open>for span in re.finditer(r'(BID\d+)', text)\<close>, collecting
  \<^verbatim>\<open>[span.start(), span.start() + len(span.group()), span.group()]\<close>; the first argument is
  the offset of the rest of the text.
\<close>

fun cite_spans_from :: "nat \<Rightarrow> string \<Rightarrow> span list" where
  "cite_spans_from i [] = []"
| "cite_spans_from i (c # cs) =
     (case match_bid (c # cs) of
        Some tok \<Rightarrow>
          (i, i + length tok, tok) # cite_spans_from (i + length tok) (drop (length tok - 1) cs)
      | None \<Rightarrow> cite_spans_from (Suc i) cs)"

definition cite_spans :: "string \<Rightarrow> span list" where
  "cite_spans text = cite_spans_from 0 text"

text \<open>\<^verbatim>\<open>re.match(r'\d{4}', s)\<close>.\<close>

definition match_year :: "string \<Rightarrow> bool" where
  "match_year s = (4 \<le> length s \<and> list_all is_digit (take 4 s))"

text \<open>
  \<^verbatim>\<open>MAIN_TEX_PATT = (\\begin\s*\{\s*document\s*\})\<close> with \<^verbatim>\<open>re.I\<close>. Each \<^verbatim>\<open>\s*\<close> is followed
  by a character that is no whitespace, so skipping all whitespace loses no match.
\<close>

definition main_tex_at :: "string \<Rightarrow> bool" where
  "main_tex_at s =
     (ci_prefix (backslash # ''begin'') s \<and>
      (case dropWhile is_space (drop 6 s) of
         [] \<Rightarrow> False
       | b # r \<Rightarrow>
           b = CHR ''{'' \<and> ci_prefix ''document'' (dropWhile is_space r) \<and>
           (case dropWhile is_space (drop 8 (dropWhile is_space r)) of
              [] \<Rightarrow> False
            | e # _ \<Rightarrow> e = CHR ''}'')))"

fun main_tex_search :: "string \<Rightarrow> bool" where
  "main_tex_search [] = False"
| "main_tex_search (c # cs) = (main_tex_at (c # cs) \<or> main_tex_search cs)"

text \<open>
  \<^verbatim>\<open>NATBIB_PATT = \\cite(t|p|alt|alp|author|year|yearpar)\s*?\*?\s*?(\[[^\]]*?\]\s*?)*?\s*?\*?\s*?\{([^\}]+?)\}\<close>
  with \<^verbatim>\<open>re.I\<close>. Behind the macro name the pattern reads whitespace, at most one star before
  the bracketed groups and at most one behind them, and then the braced argument, which
  ends at the first closing brace and is not empty. The phases below are the places of
  that part of the pattern; a bracketed group ends at the first closing bracket.
\<close>

datatype phase = Start | Star1 | InGroup | Groups | Star2

definition brace_arg :: "string \<Rightarrow> (string \<times> string) option" where
  "brace_arg s =
     (let k = takeWhile (\<lambda>x. x \<noteq> CHR ''}'') s in
      if k = [] then None
      else (case dropWhile (\<lambda>x. x \<noteq> CHR ''}'') s of [] \<Rightarrow> None | _ # r \<Rightarrow> Some (k, r)))"

fun natbib_tail :: "phase \<Rightarrow> string \<Rightarrow> (string \<times> string) option" where
  "natbib_tail ph [] = None"
| "natbib_tail InGroup (c # cs) =
     (if c = CHR '']'' then natbib_tail Groups cs else natbib_tail InGroup cs)"
| "natbib_tail ph (c # cs) =
     (if is_space c then natbib_tail ph cs
      else if c = CHR ''*'' then
        (if ph = Star2 then None
         else natbib_tail (if ph = Start then Star1 else Star2) cs)
      else if c = CHR ''['' then (if ph = Star2 then None else natbib_tail InGroup cs)
      else if c = CHR ''{'' then brace_arg cs
      else None)"

definition natbib_suffixes :: "string list" where
  "natbib_suffixes = [''t'', ''p'', ''alt'', ''alp'', ''author'', ''year'', ''yearpar'']"

text \<open>The alternatives of the macro name, tried in the order of the pattern.\<close>

fun natbib_alternatives :: "string list \<Rightarrow> string \<Rightarrow> (string \<times> string) option" where
  "natbib_alternatives [] s = None"
| "natbib_alternatives (suf # sufs) s =
     (case (if ci_prefix suf s then natbib_tail Start (drop (length suf) s) else None) of
        Some m \<Rightarrow> Some m
      | None \<Rightarrow> natbib_alternatives sufs s)"

text \<open>The match at the start of the string: group 3 and the text behind the match.\<close>

definition natbib_match :: "string \<Rightarrow> (string \<times> string) option" where
  "natbib_match s =
     (if ci_prefix (backslash # ''cite'') s then natbib_alternatives natbib_suffixes (drop 5 s)
      else None)"

text \<open>\<^verbatim>\<open>NATBIB_PATT.sub(r'\\cite{\3}', cntnt)\<close>.\<close>

fun fix_natbib :: "string \<Rightarrow> string" where
  "fix_natbib [] = []"
| "fix_natbib (c # cs) =
     (case natbib_match (c # cs) of
        Some (key, rest) \<Rightarrow>
          (backslash # ''cite{'') @ key @ ''}'' @ fix_natbib (drop (length cs - length rest) cs)
      | None \<Rightarrow> c # fix_natbib cs)"

text \<open>\<^verbatim>\<open>BIBOPT_PATT = \\bibitem\s*?\[[^]]*?\]\<close> with \<^verbatim>\<open>re.I|re.M\<close>, and its substitution.\<close>

definition bibopt_match :: "string \<Rightarrow> string option" where
  "bibopt_match s =
     (if ci_prefix (backslash # ''bibitem'') s then
        (case dropWhile is_space (drop 8 s) of
           [] \<Rightarrow> None
         | b # r \<Rightarrow>
             if b = CHR ''['' then
               (case dropWhile (\<lambda>x. x \<noteq> CHR '']'') r of [] \<Rightarrow> None | _ # r' \<Rightarrow> Some r')
             else None)
      else None)"

fun fix_bibopt :: "string \<Rightarrow> string" where
  "fix_bibopt [] = []"
| "fix_bibopt (c # cs) =
     (case bibopt_match (c # cs) of
        Some rest \<Rightarrow> (backslash # ''bibitem'') @ fix_bibopt (drop (length cs - length rest) cs)
      | None \<Rightarrow> c # fix_bibopt cs)"


section \<open>Source normalization (normalize\_arxiv\_dump)\<close>

text \<open>
  The module constants \<^verbatim>\<open>PRE_FIX_NATBIB = True\<close>, \<^verbatim>\<open>PRE_FIX_BIBOPT = True\<close> and
  \<^verbatim>\<open>PRE_FILTER_MATH = False\<close>: the two rewrites of \<^verbatim>\<open>normalize\<close> run in this order, and
  \<^verbatim>\<open>remove_math\<close> is never called.
\<close>

definition PRE_FIX_NATBIB :: bool where
  "PRE_FIX_NATBIB = True"

definition PRE_FIX_BIBOPT :: bool where
  "PRE_FIX_BIBOPT = True"

definition normalize_macros :: "string \<Rightarrow> string" where
  "normalize_macros cntnt =
     (let cntnt = (if PRE_FIX_NATBIB then fix_natbib cntnt else cntnt);
          cntnt = (if PRE_FIX_BIBOPT then fix_bibopt cntnt else cntnt)
      in cntnt)"

subsection \<open>Reading a file\<close>

text \<open>
  The decoders are libraries outside the repository; they are parameters of the model.
  \<^verbatim>\<open>open(path).read()\<close> decodes with the locale's encoding, \<^verbatim>\<open>magic\<close> names an encoding for
  a buffer, \<^verbatim>\<open>bytes.decode\<close> raises UnicodeDecodeError or LookupError (or something else),
  \<^verbatim>\<open>chardet.detect\<close> names an encoding or None, and \<^verbatim>\<open>gzip\<close> unpacks a buffer or fails.
\<close>

type_synonym bytes = "char list"

datatype io_error = UnicodeDecodeError | LookupError | OSError

record codecs =
  text_read :: "bytes \<Rightarrow> io_error + string"
  mime_encoding :: "bytes \<Rightarrow> string"
  decode_strict :: "string \<Rightarrow> bytes \<Rightarrow> io_error + string"
  chardet_detect :: "bytes \<Rightarrow> string option"
  decode_replace :: "string \<Rightarrow> bytes \<Rightarrow> io_error + string"
  gzip_read :: "bytes \<Rightarrow> io_error + bytes"

text \<open>What a Python function returns here: a string, or \<^verbatim>\<open>False\<close>.\<close>

datatype py_value = PyStr string | PyFalse

definition read_file :: "codecs \<Rightarrow> bytes \<Rightarrow> io_error + string" where
  "read_file env blob =
     (case text_read env blob of
        Inr cntnt \<Rightarrow> Inr cntnt
      | Inl e \<Rightarrow>
          if e \<noteq> UnicodeDecodeError then Inl e
          else
            (case decode_strict env (mime_encoding env blob) blob of
               Inr cntnt \<Rightarrow> Inr cntnt
             | Inl e' \<Rightarrow>
                 if e' \<noteq> UnicodeDecodeError \<and> e' \<noteq> LookupError then Inl e'
                 else
                   (case chardet_detect env blob of
                      None \<Rightarrow> Inr []
                    | Some encoding \<Rightarrow>
                        if encoding = [] then Inr []
                        else
                          (case decode_replace env encoding blob of
                             Inr cntnt \<Rightarrow> Inr cntnt
                           | Inl _ \<Rightarrow> Inr []))))"

definition read_gzipped_file :: "codecs \<Rightarrow> bytes \<Rightarrow> io_error + py_value" where
  "read_gzipped_file env file =
     (case gzip_read env file of
        Inl e \<Rightarrow> Inl e
      | Inr blob \<Rightarrow>
          (case decode_strict env (mime_encoding env blob) blob of
             Inr cntnt \<Rightarrow> Inr (PyStr cntnt)
           | Inl e' \<Rightarrow>
               if e' \<noteq> UnicodeDecodeError \<and> e' \<noteq> LookupError then Inl e'
               else
                 (case chardet_detect env blob of
                    None \<Rightarrow> Inr PyFalse
                  | Some encoding \<Rightarrow>
                      if encoding = [] then Inr PyFalse
                      else
                        (case decode_replace env encoding blob of
                           Inr cntnt \<Rightarrow> Inr (PyStr cntnt)
                         | Inl e \<Rightarrow> Inl e))))"

subsection \<open>Locating the main file\<close>

text \<open>\<^verbatim>\<open>os.path.splitext(tfn)[1]\<close> for a name of a directory listing (no separator in it).\<close>

definition splitext_ext :: "string \<Rightarrow> string" where
  "splitext_ext p =
     (if CHR ''.'' \<notin> set p then []
      else
        let ext = CHR ''.'' # rev (takeWhile (\<lambda>x. x \<noteq> CHR ''.'') (rev p));
            root = take (length p - length ext) p
        in if list_all (\<lambda>x. x = CHR ''.'') root then [] else ext)"

text \<open>
  \<^verbatim>\<open>TEX_EXT_PATT = ^\.tex$\<close> and \<^verbatim>\<open>NON_TEXT_PATT = ^\.(pdf|eps|jpg|png|gif)$\<close>, both with
  \<^verbatim>\<open>re.I\<close>; \<^verbatim>\<open>$\<close> also matches before a newline that ends the string.
\<close>

definition ext_matches :: "string list \<Rightarrow> string \<Rightarrow> bool" where
  "ext_matches exts e =
     (\<exists>x \<in> set exts. lower e = CHR ''.'' # x \<or> lower e = CHR ''.'' # x @ [CHR 0x0A])"

definition TEX_EXT :: "string \<Rightarrow> bool" where
  "TEX_EXT e = ext_matches [''tex''] e"

definition NON_TEXT :: "string \<Rightarrow> bool" where
  "NON_TEXT e = ext_matches [''pdf'', ''eps'', ''jpg'', ''png'', ''gif''] e"

text \<open>
  The first loop of \<^verbatim>\<open>normalize\<close> over \<^verbatim>\<open>os.listdir(path)\<close>. \<^verbatim>\<open>rd tfn\<close> is what
  \<^verbatim>\<open>read_file(os.path.join(path, tfn))\<close> does: it returns the content or raises. The loop
  carries \<^verbatim>\<open>main_tex_path\<close> and \<^verbatim>\<open>ignored_names\<close>.
\<close>

fun tex_scan ::
  "(string \<Rightarrow> io_error + string) \<Rightarrow> string list \<Rightarrow> string option \<Rightarrow> string list
     \<Rightarrow> string option \<times> string list" where
  "tex_scan rd [] main_tex_path ignored_names = (main_tex_path, ignored_names)"
| "tex_scan rd (tfn # tfns) main_tex_path ignored_names =
     (if \<not> TEX_EXT (splitext_ext tfn) then tex_scan rd tfns main_tex_path (ignored_names @ [tfn])
      else
        (case rd tfn of
           Inl _ \<Rightarrow> tex_scan rd tfns main_tex_path ignored_names
         | Inr cntnt \<Rightarrow>
             if main_tex_search cntnt then tex_scan rd tfns (Some tfn) ignored_names
             else tex_scan rd tfns main_tex_path ignored_names))"

text \<open>The second loop, over \<^verbatim>\<open>ignored_names\<close>.\<close>

fun other_scan ::
  "(string \<Rightarrow> io_error + string) \<Rightarrow> string list \<Rightarrow> string option \<Rightarrow> string option" where
  "other_scan rd [] main_tex_path = main_tex_path"
| "other_scan rd (tfn # tfns) main_tex_path =
     (if NON_TEXT (splitext_ext tfn) then other_scan rd tfns main_tex_path
      else
        (case rd tfn of
           Inl _ \<Rightarrow> other_scan rd tfns main_tex_path
         | Inr cntnt \<Rightarrow>
             if main_tex_search cntnt then other_scan rd tfns (Some tfn)
             else other_scan rd tfns main_tex_path))"

definition locate_main :: "(string \<Rightarrow> io_error + string) \<Rightarrow> string list \<Rightarrow> string option" where
  "locate_main rd listing =
     (case tex_scan rd listing None [] of
        (None, ignored_names) \<Rightarrow> other_scan rd ignored_names None
      | (Some tfn, _) \<Rightarrow> Some tfn)"

text \<open>The files of a listing that the first loop accepts as main file.\<close>

definition tex_candidates :: "(string \<Rightarrow> io_error + string) \<Rightarrow> string list \<Rightarrow> string list" where
  "tex_candidates rd listing =
     filter (\<lambda>tfn. TEX_EXT (splitext_ext tfn) \<and>
                   (case rd tfn of Inl _ \<Rightarrow> False | Inr cntnt \<Rightarrow> main_tex_search cntnt)) listing"

section \<open>The parse tree and the operations of BeautifulSoup\<close>

text \<open>
  The script edits the parse tree in place while it holds lists of elements found earlier
  (\<^verbatim>\<open>find_all\<close> results, the children of a section). The model keeps that aliasing: an
  element is named by its path from the root, and an edit leaves a marker where it happened
  instead of moving anything, so every path found earlier still names the same element.
  \<^item> \<open>Str s\<close> is a string of the tree and \<open>Tag name attrs contents\<close> an element.
  \<^item> \<open>Replaced s x\<close>: \<^verbatim>\<open>x.replace_with(s)\<close> was called. The string \<open>s\<close> stands in the tree;
    the element \<open>x\<close> is detached from its parent and otherwise unchanged.
  \<^item> \<open>Decomposed x\<close>: \<^verbatim>\<open>x.decompose()\<close> was called. Nothing stands in the tree; \<open>x\<close> and every
    element that was still attached below it have lost their name, attributes and contents.
    An element detached below \<open>x\<close> before that call is not touched.
  The input of the script is a tree without markers, with a \<open>Tag\<close> (the soup) at the root.
\<close>

datatype node =
    Str string
  | Tag string "(string \<times> string) list" "node list"
  | Replaced string node
  | Decomposed node

type_synonym path = "nat list"

text \<open>
  The object a path names, and whether it is intact (\<open>True\<close>) or destroyed: the marker
  nearest to the object decides.
\<close>

fun node_at :: "bool \<Rightarrow> node \<Rightarrow> path \<Rightarrow> (bool \<times> node) option" where
  "node_at live (Replaced s x) p = node_at True x p"
| "node_at live (Decomposed x) p = node_at False x p"
| "node_at live (Str s) p = (if p = [] then Some (live, Str s) else None)"
| "node_at live (Tag n a cs) [] = Some (live, Tag n a cs)"
| "node_at live (Tag n a cs) (i # p) = (if i < length cs then node_at live (cs ! i) p else None)"

definition tag_at :: "node \<Rightarrow> path \<Rightarrow> (string \<times> (string \<times> string) list \<times> node list) option" where
  "tag_at soup p =
     (case node_at True soup p of Some (True, Tag n a cs) \<Rightarrow> Some (n, a, cs) | _ \<Rightarrow> None)"

text \<open>\<^verbatim>\<open>el.name\<close> and \<^verbatim>\<open>el.get(key)\<close>.\<close>

definition tag_name :: "node \<Rightarrow> path \<Rightarrow> string option" where
  "tag_name soup p = (case tag_at soup p of Some (n, a, cs) \<Rightarrow> Some n | None \<Rightarrow> None)"

definition get_attr :: "node \<Rightarrow> path \<Rightarrow> string \<Rightarrow> string option" where
  "get_attr soup p key = (case tag_at soup p of Some (n, a, cs) \<Rightarrow> map_of a key | None \<Rightarrow> None)"

text \<open>\<^verbatim>\<open>el.text\<close>: the strings that stand in the tree below the element, in document order.\<close>

fun node_text :: "node \<Rightarrow> string" where
  "node_text (Str s) = s"
| "node_text (Tag n a cs) = concat (map node_text cs)"
| "node_text (Replaced s x) = s"
| "node_text (Decomposed x) = []"

definition text_of :: "node \<Rightarrow> path \<Rightarrow> string" where
  "text_of soup p = (case node_at True soup p of Some (True, x) \<Rightarrow> node_text x | _ \<Rightarrow> [])"

text \<open>
  \<^verbatim>\<open>el.find_all(name)\<close>: the elements of that name attached below \<open>el\<close>, in document order;
  \<^verbatim>\<open>el.name_of_a_tag\<close> (as in \<^verbatim>\<open>soup.title\<close>, \<^verbatim>\<open>cite.ref\<close>, \<^verbatim>\<open>el.head\<close>) is the first of them or None.
\<close>

fun find_ins :: "string \<Rightarrow> nat \<Rightarrow> node list \<Rightarrow> path list" where
  "find_ins name i [] = []"
| "find_ins name i (Tag n a ks # cs) =
     (if n = name then [[i]] else []) @ map ((#) i) (find_ins name 0 ks) @ find_ins name (Suc i) cs"
| "find_ins name i (Str s # cs) = find_ins name (Suc i) cs"
| "find_ins name i (Replaced s x # cs) = find_ins name (Suc i) cs"
| "find_ins name i (Decomposed x # cs) = find_ins name (Suc i) cs"

definition find_all :: "node \<Rightarrow> path \<Rightarrow> string \<Rightarrow> path list" where
  "find_all soup p name =
     (case tag_at soup p of Some (n, a, cs) \<Rightarrow> map ((@) p) (find_ins name 0 cs) | None \<Rightarrow> [])"

definition find_first :: "node \<Rightarrow> path \<Rightarrow> string \<Rightarrow> path option" where
  "find_first soup p name = (case find_all soup p name of [] \<Rightarrow> None | q # _ \<Rightarrow> Some q)"

text \<open>
  \<^verbatim>\<open>el.find_parent(name)\<close>: the nearest element of that name above \<open>el\<close>. A detached element
  has no parent, and a destroyed one has lost its parent.
\<close>

fun ancestors_in :: "bool \<Rightarrow> node \<Rightarrow> path \<Rightarrow> path \<Rightarrow> path list \<Rightarrow> path list" where
  "ancestors_in live (Replaced s x) p sofar acc = ancestors_in True x p sofar []"
| "ancestors_in live (Decomposed x) p sofar acc = ancestors_in False x p sofar []"
| "ancestors_in live (Str s) p sofar acc = (if p = [] \<and> live then acc else [])"
| "ancestors_in live (Tag n a cs) [] sofar acc = (if live then acc else [])"
| "ancestors_in live (Tag n a cs) (i # p) sofar acc =
     (if i < length cs then ancestors_in live (cs ! i) p (sofar @ [i]) (sofar # acc) else [])"

definition find_parent :: "node \<Rightarrow> path \<Rightarrow> string \<Rightarrow> path option" where
  "find_parent soup p name =
     (case filter (\<lambda>q. tag_name soup q = Some name) (ancestors_in True soup p [] []) of
        [] \<Rightarrow> None
      | q # _ \<Rightarrow> Some q)"

text \<open>\<^verbatim>\<open>for el in div\<close> with \<^verbatim>\<open>el.name\<close> not None: the elements among the contents of \<open>div\<close>.\<close>

fun tag_children :: "nat \<Rightarrow> node list \<Rightarrow> nat list" where
  "tag_children i [] = []"
| "tag_children i (Tag n a ks # cs) = i # tag_children (Suc i) cs"
| "tag_children i (c # cs) = tag_children (Suc i) cs"

definition child_tags :: "node \<Rightarrow> path \<Rightarrow> path list" where
  "child_tags soup p =
     (case tag_at soup p of
        Some (n, a, cs) \<Rightarrow> map (\<lambda>i. p @ [i]) (tag_children 0 cs)
      | None \<Rightarrow> [])"

text \<open>\<^verbatim>\<open>len(el)\<close>: the number of contents; a replacement string counts, a decomposed child is gone.\<close>

fun is_decomposed :: "node \<Rightarrow> bool" where
  "is_decomposed (Decomposed x) = True"
| "is_decomposed x = False"

definition num_contents :: "node \<Rightarrow> path \<Rightarrow> nat" where
  "num_contents soup p =
     (case tag_at soup p of
        Some (n, a, cs) \<Rightarrow> length (filter (\<lambda>c. \<not> is_decomposed c) cs)
      | None \<Rightarrow> 0)"

text \<open>\<^verbatim>\<open>el.replace_with(soup.new_string(s))\<close> and \<^verbatim>\<open>el.decompose()\<close>.\<close>

fun wrap :: "(node \<Rightarrow> node) \<Rightarrow> node \<Rightarrow> path \<Rightarrow> node" where
  "wrap mk (Replaced s x) p = Replaced s (wrap mk x p)"
| "wrap mk (Decomposed x) p = Decomposed (wrap mk x p)"
| "wrap mk (Str s) p = (if p = [] then mk (Str s) else Str s)"
| "wrap mk (Tag n a cs) [] = mk (Tag n a cs)"
| "wrap mk (Tag n a cs) (i # p) =
     (if i < length cs then Tag n a (cs[i := wrap mk (cs ! i) p]) else Tag n a cs)"

definition replace_with :: "node \<Rightarrow> path \<Rightarrow> string \<Rightarrow> node" where
  "replace_with soup p s = wrap (Replaced s) soup p"

definition decompose :: "node \<Rightarrow> path \<Rightarrow> node" where
  "decompose soup p = wrap Decomposed soup p"

text \<open>\<^verbatim>\<open>for el in found: el.decompose()\<close>.\<close>

definition decompose_all :: "path list \<Rightarrow> node \<Rightarrow> node" where
  "decompose_all found soup = fold (\<lambda>el st. decompose st el) found soup"

section \<open>Paragraph extraction (convert\_latex\_to\_gorc.process\_paragraph)\<close>

record text_block =
  tb_text :: string
  tb_mention_spans :: "span list"
  tb_section :: "string option"

text \<open>
  \<^verbatim>\<open>for stag in para_el.find_all(tag): stag.replace_with(soup.new_string(tag.upper()))\<close>, for
  the three \<^verbatim>\<open>strip_tags\<close> in turn.
\<close>

definition strip_tag :: "path \<Rightarrow> string \<Rightarrow> node \<Rightarrow> node" where
  "strip_tag para_el tag soup =
     fold (\<lambda>stag st. replace_with st stag (upper tag)) (find_all soup para_el tag) soup"

definition strip_tags :: "path \<Rightarrow> node \<Rightarrow> node" where
  "strip_tags para_el soup = fold (strip_tag para_el) [''formula'', ''figure'', ''table''] soup"

text \<open>The loop over \<^verbatim>\<open>para_el.find_all('ref')\<close>.\<close>

definition replace_refs :: "path \<Rightarrow> node \<Rightarrow> node" where
  "replace_refs para_el soup =
     fold (\<lambda>rtag st.
             (case get_attr st rtag ''target'' of
                None \<Rightarrow> st
              | Some target \<Rightarrow>
                  if target \<noteq> [] \<and> take 3 target \<noteq> ''bid'' then replace_with st rtag ''REF''
                  else st))
          (find_all soup para_el ''ref'') soup"

text \<open>
  The loop over \<^verbatim>\<open>citations\<close>: \<^verbatim>\<open>cite.ref\<close> is None when no \<^verbatim>\<open>ref\<close> is attached below the
  citation, and \<^verbatim>\<open>get('target')\<close> is None when the \<^verbatim>\<open>ref\<close> has no target; both raise
  AttributeError at the next call.
\<close>

fun replace_citations :: "path list \<Rightarrow> node \<Rightarrow> py_error + node" where
  "replace_citations [] soup = Inr soup"
| "replace_citations (cite # citations) soup =
     (case find_first soup cite ''ref'' of
        None \<Rightarrow> Inl AttributeError
      | Some r \<Rightarrow>
          (case get_attr soup r ''target'' of
             None \<Rightarrow> Inl AttributeError
           | Some target \<Rightarrow> replace_citations citations (replace_with soup cite (upper target))))"

text \<open>The three replacement steps, which the script also repeats for the abstract.\<close>

definition replace_sentinels :: "path \<Rightarrow> node \<Rightarrow> py_error + node" where
  "replace_sentinels para_el soup =
     (let soup = strip_tags para_el soup;
          soup = replace_refs para_el soup
      in replace_citations (find_all soup para_el ''cit'') soup)"

text \<open>
  \<^verbatim>\<open>process_paragraph\<close> returns the block; the model also returns the edited tree. The text
  is read before the floats and the notes are decomposed.
\<close>

definition process_paragraph ::
  "node \<Rightarrow> path \<Rightarrow> string \<Rightarrow> py_error + text_block \<times> node" where
  "process_paragraph soup para_el section_name =
     (case replace_sentinels para_el soup of
        Inl e \<Rightarrow> Inl e
      | Inr soup \<Rightarrow>
          let text = sub_space (text_of soup para_el);
              soup = decompose_all (find_all soup para_el ''float'') soup;
              soup = decompose_all (find_all soup para_el ''note'') soup
          in Inr (\<lparr> tb_text = text, tb_mention_spans = cite_spans text,
                     tb_section = Some section_name \<rparr>, soup))"

section \<open>Document extraction (the script of convert\_latex\_to\_gorc)\<close>

text \<open>\<^verbatim>\<open>process_bibentry\<close>.\<close>

fun collapse_ws :: "bool \<Rightarrow> string \<Rightarrow> string" where
  "collapse_ws prev [] = []"
| "collapse_ws prev (c # cs) =
     (if is_space c then (if prev then collapse_ws True cs else CHR '' '' # collapse_ws True cs)
      else c # collapse_ws False cs)"

fun join_with :: "string \<Rightarrow> string list \<Rightarrow> string" where
  "join_with sep [] = []"
| "join_with sep [x] = x"
| "join_with sep (x # y # ys) = x @ sep @ join_with sep (y # ys)"

definition process_bibentry :: "string \<Rightarrow> string" where
  "process_bibentry bib_text =
     join_with '' '' (map (\<lambda>line. py_strip (sub_space (collapse_ws False line)))
                         (split_on (CHR 0x0A) [] bib_text))"

text \<open>A Python dict that keeps its keys in insertion order.\<close>

type_synonym dict = "(string \<times> string) list"

fun dict_set :: "string \<Rightarrow> string \<Rightarrow> dict \<Rightarrow> dict" where
  "dict_set k v [] = [(k, v)]"
| "dict_set k v ((k', v') # m) = (if k' = k then (k, v) # m else (k', v') # dict_set k v m)"

fun bib_loop :: "path list \<Rightarrow> node \<Rightarrow> dict \<Rightarrow> py_error + dict" where
  "bib_loop [] soup bibkey_map = Inr bibkey_map"
| "bib_loop (bi # bis) soup bibkey_map =
     (case get_attr soup bi ''id'' of
        None \<Rightarrow> bib_loop bis soup bibkey_map
      | Some ident \<Rightarrow>
          if ident = [] then bib_loop bis soup bibkey_map
          else
            (case find_parent soup bi ''p'' of
               None \<Rightarrow> Inl AttributeError
             | Some par \<Rightarrow>
                 bib_loop bis soup
                   (dict_set (upper ident) (process_bibentry (text_of soup par)) bibkey_map)))"

definition bibliography :: "node \<Rightarrow> py_error + dict \<times> node" where
  "bibliography soup =
     (case find_first soup [] ''Bibliography'' of
        None \<Rightarrow> Inr ([], soup)
      | Some b \<Rightarrow>
          (case bib_loop (find_all soup b ''bibitem'') soup [] of
             Inl e \<Rightarrow> Inl e
           | Inr bibkey_map \<Rightarrow> Inr (bibkey_map, decompose soup b)))"

text \<open>The body: the paragraphs of a subsection, the children of a section, the sections.\<close>

fun p_loop ::
  "path list \<Rightarrow> string \<Rightarrow> node \<Rightarrow> text_block list \<Rightarrow> py_error + node \<times> text_block list" where
  "p_loop [] section_title soup body = Inr (soup, body)"
| "p_loop (p # ps) section_title soup body =
     (case process_paragraph soup p section_title of
        Inl e \<Rightarrow> Inl e
      | Inr (block, soup) \<Rightarrow> p_loop ps section_title soup (body @ [block]))"

fun el_loop ::
  "path list \<Rightarrow> node \<Rightarrow> string \<Rightarrow> text_block list
     \<Rightarrow> py_error + node \<times> string \<times> text_block list" where
  "el_loop [] soup section_title body = Inr (soup, section_title, body)"
| "el_loop (el # els) soup section_title body =
     (if tag_name soup el = Some ''head'' then el_loop els soup (text_of soup el) body
      else if tag_name soup el = Some ''p'' then
        (case process_paragraph soup el section_title of
           Inl e \<Rightarrow> Inl e
         | Inr (block, soup) \<Rightarrow> el_loop els soup section_title (body @ [block]))
      else if tag_name soup el = Some ''div1'' then
        (case find_first soup el ''head'' of
           None \<Rightarrow> Inl AttributeError
         | Some h \<Rightarrow>
             (case p_loop (find_all soup el ''p'') (text_of soup h) soup body of
                Inl e \<Rightarrow> Inl e
              | Inr (soup', body) \<Rightarrow> el_loop els soup' (text_of soup h) body))
      else el_loop els soup section_title body)"

fun div_loop ::
  "path list \<Rightarrow> node \<Rightarrow> string \<Rightarrow> text_block list
     \<Rightarrow> py_error + node \<times> string \<times> text_block list" where
  "div_loop [] soup section_title body = Inr (soup, section_title, body)"
| "div_loop (d # ds) soup section_title body =
     (case el_loop (child_tags soup d) soup section_title body of
        Inl e \<Rightarrow> Inl e
      | Inr (soup, section_title, body) \<Rightarrow> div_loop ds (decompose soup d) section_title body)"

text \<open>
  The three header lookups. \<^verbatim>\<open>soup.title\<close> is None when there is no such element, and
  \<^verbatim>\<open>None.text\<close> raises the AttributeError that the \<^verbatim>\<open>try\<close> catches; an IndexError of
  \<^verbatim>\<open>process_authors\<close> is not caught.
\<close>

definition head_title :: "node \<Rightarrow> string" where
  "head_title soup = (case find_first soup [] ''title'' of None \<Rightarrow> [] | Some t \<Rightarrow> text_of soup t)"

definition head_authors :: "node \<Rightarrow> py_error + author list" where
  "head_authors soup =
     (case find_first soup [] ''author'' of
        None \<Rightarrow> Inr []
      | Some a \<Rightarrow>
          (case process_authors (py_strip (text_of soup a)) False of
             Inl e \<Rightarrow> if e = AttributeError then Inr [] else Inl e
           | Inr authors \<Rightarrow> Inr authors))"

definition head_year :: "node \<Rightarrow> string" where
  "head_year soup = (case find_first soup [] ''year'' of None \<Rightarrow> [] | Some y \<Rightarrow> text_of soup y)"

text \<open>\<^verbatim>\<open>text_len.index(max(text_len))\<close> for a list that is not empty.\<close>

definition index_of_max :: "nat list \<Rightarrow> nat" where
  "index_of_max text_len = length (takeWhile (\<lambda>n. n \<noteq> fold max text_len 0) text_len)"

text \<open>The abstract: the branch \<^verbatim>\<open>len(abs_p) == 1\<close> and the branch that repeats the replacements.\<close>

definition abstract_block :: "node \<Rightarrow> path \<Rightarrow> py_error + text_block \<times> node" where
  "abstract_block soup abs_p =
     (if num_contents soup abs_p = 1 then
        Inr (\<lparr> tb_text = sub_space (text_of soup abs_p), tb_mention_spans = [],
                tb_section = None \<rparr>, soup)
      else
        (case replace_sentinels abs_p soup of
           Inl e \<Rightarrow> Inl e
         | Inr soup \<Rightarrow>
             let text = sub_space (text_of soup abs_p)
             in Inr (\<lparr> tb_text = text, tb_mention_spans = cite_spans text,
                        tb_section = None \<rparr>, soup)))"

text \<open>
  \<^verbatim>\<open>for i, p in enumerate(ps): if re.match(r'\d{4}', p.text): year = p.text; del ps[i]\<close>.
  The iterator of the list and the counter of \<^verbatim>\<open>enumerate\<close> both move on by one after
  every step, also after a deletion; the loop ends when the counter reaches the length the
  list has then.
\<close>

function year_loop :: "node \<Rightarrow> path list \<Rightarrow> nat \<Rightarrow> string \<Rightarrow> string \<times> path list" where
  "year_loop soup ps i year =
     (if i < length ps then
        (if match_year (text_of soup (ps ! i))
         then year_loop soup (take i ps @ drop (Suc i) ps) (Suc i) (text_of soup (ps ! i))
         else year_loop soup ps (Suc i) year)
      else (year, ps))"
  by pat_completeness auto
termination
  by (relation "measure (\<lambda>(soup, ps, i, year). length ps - i)") auto

text \<open>What the abstract field holds: the initial \<^verbatim>\<open>[]\<close>, or the block of the abstract.\<close>

datatype abstract_item = EmptyList | Block text_block

text \<open>The part of the script from \<^verbatim>\<open>abstract = []\<close> to the last fallback.\<close>

definition head_paragraphs ::
  "node \<Rightarrow> path list \<Rightarrow> string \<Rightarrow> author list \<Rightarrow> string
     \<Rightarrow> py_error + abstract_item \<times> string \<times> author list \<times> string" where
  "head_paragraphs soup ps title authors year =
     (if ps = [] then Inr (EmptyList, title, authors, year)
      else
        let text_len = map (\<lambda>p. length (text_of soup p)) ps;
            abstract_entry = index_of_max text_len
        in
          (case abstract_block soup (ps ! abstract_entry) of
             Inl e \<Rightarrow> Inl e
           | Inr (block, soup) \<Rightarrow>
               let ps = take abstract_entry ps @ drop (Suc abstract_entry) ps;
                   scanned = (if year = [] \<and> ps \<noteq> [] then year_loop soup ps 0 year
                              else (year, ps));
                   year = fst scanned;
                   ps = snd scanned;
                   title = (if title = [] \<and> ps \<noteq> [] then text_of soup (ps ! 0) else title)
               in
                 if authors = [] \<and> 1 < length ps then
                   (case process_authors (py_strip (text_of soup (ps ! 1))) False of
                      Inl e \<Rightarrow> Inl e
                    | Inr authors \<Rightarrow> Inr (Block block, title, authors, year))
                 else Inr (Block block, title, authors, year)))"

record metadata =
  md_title :: string
  md_authors :: "author list"
  md_year :: string

record gorc_entry =
  paper_id :: string
  metadata :: metadata
  abstract :: "abstract_item list"
  body_text :: "text_block list"
  bib_entries :: dict

text \<open>
  The body of the loop over the converted files, from the parsed \<^verbatim>\<open>soup\<close> to \<^verbatim>\<open>gorc_entry\<close>,
  in two parts: up to the end of the loop over the sections, and from the header lookups on.
  The result is the record the script writes, or the exception that ends the script.
\<close>

definition body_stage :: "node \<Rightarrow> py_error + dict \<times> node \<times> text_block list" where
  "body_stage soup =
     (let soup = decompose_all (find_all soup [] ''unexpected'') soup in
      case bibliography soup of
        Inl e \<Rightarrow> Inl e
      | Inr (bibkey_map, soup) \<Rightarrow>
          let soup = decompose_all (find_all soup [] ''float'') soup in
          (case div_loop (find_all soup [] ''div0'') soup [] [] of
             Inl e \<Rightarrow> Inl e
           | Inr (soup, section_title, body) \<Rightarrow> Inr (bibkey_map, soup, body)))"

definition head_stage ::
  "string \<Rightarrow> dict \<Rightarrow> node \<Rightarrow> text_block list \<Rightarrow> py_error + gorc_entry" where
  "head_stage arxiv_id bibkey_map soup body =
     (case head_authors soup of
        Inl e \<Rightarrow> Inl e
      | Inr authors \<Rightarrow>
          (case head_paragraphs soup (find_all soup [] ''p'')
                  (head_title soup) authors (head_year soup) of
             Inl e \<Rightarrow> Inl e
           | Inr (abstract_value, title, authors, year) \<Rightarrow>
               Inr \<lparr> paper_id = arxiv_id,
                     metadata = \<lparr> md_title = title, md_authors = authors, md_year = year \<rparr>,
                     abstract = [abstract_value],
                     body_text = body,
                     bib_entries = bibkey_map \<rparr>))"

definition extract_document :: "string \<Rightarrow> node \<Rightarrow> py_error + gorc_entry" where
  "extract_document arxiv_id soup =
     (case body_stage soup of
        Inl e \<Rightarrow> Inl e
      | Inr (bibkey_map, soup, body) \<Rightarrow> head_stage arxiv_id bibkey_map soup body)"

section \<open>The properties the specification states\<close>

text \<open>
  A span \<open>(start, end, token)\<close> of a block is right when \<^verbatim>\<open>text[start:end] == token\<close> and the
  token matches \<^verbatim>\<open>BID\d+\<close>. The spans of a block are in order when their starts ascend and
  no span begins before an earlier one has ended.
\<close>

definition bid_token :: "string \<Rightarrow> bool" where
  "bid_token t = (take 3 t = ''BID'' \<and> drop 3 t \<noteq> [] \<and> list_all is_digit (drop 3 t))"

definition span_ok :: "string \<Rightarrow> span \<Rightarrow> bool" where
  "span_ok txt sp =
     (case sp of (start, stop, token) \<Rightarrow>
        start \<le> stop \<and> stop \<le> length txt \<and> take (stop - start) (drop start txt) = token \<and>
        bid_token token)"

fun non_overlapping :: "span list \<Rightarrow> bool" where
  "non_overlapping [] = True"
| "non_overlapping (sp # sps) =
     ((\<forall>sp' \<in> set sps. fst (snd sp) \<le> fst sp') \<and> non_overlapping sps)"

definition block_ok :: "text_block \<Rightarrow> bool" where
  "block_ok b =
     ((\<forall>sp \<in> set (tb_mention_spans b). span_ok (tb_text b) sp) \<and>
      sorted (map fst (tb_mention_spans b)) \<and> non_overlapping (tb_mention_spans b))"

text \<open>A text has a whitespace run when two whitespace characters stand side by side.\<close>

fun has_ws_run :: "string \<Rightarrow> bool" where
  "has_ws_run (a # b # cs) = ((is_space a \<and> is_space b) \<or> has_ws_run (b # cs))"
| "has_ws_run cs = False"


text \<open>
  The paragraphs that are left outside the sections when the header is read (\<^verbatim>\<open>ps\<close> of the
  script), for a tree on which the script gets that far.
\<close>

definition remaining_paragraphs :: "node \<Rightarrow> path list" where
  "remaining_paragraphs soup =
     (case body_stage soup of Inl e \<Rightarrow> [] | Inr (bibkey_map, soup, body) \<Rightarrow> find_all soup [] ''p'')"


text \<open>
  A text is canonical when every citation macro in it is a plain \<^verbatim>\<open>\cite{...}\<close>: wherever
  \<^verbatim>\<open>\cite\<close> stands (in any case, as the pattern ignores case), an opening brace follows.
\<close>

fun canonical_cites :: "string \<Rightarrow> bool" where
  "canonical_cites [] = True"
| "canonical_cites (c # cs) =
     ((ci_prefix (backslash # ''cite'') (c # cs) \<longrightarrow>
         (case drop 4 cs of [] \<Rightarrow> False | x # _ \<Rightarrow> x = CHR ''{'')) \<and>
      canonical_cites cs)"


section \<open>Parse trees the extraction accepts\<close>

text \<open>
  The script replaces or removes the elements of nine names at some point, and a reference
  whose target is neither empty nor begins with \<^verbatim>\<open>bid\<close>. It keeps every other element where
  it stands.
\<close>

fun tag_sig :: "node \<Rightarrow> (string \<times> (string \<times> string) list) option" where
  "tag_sig (Tag n a ks) = Some (n, a)"
| "tag_sig x = None"










text \<open>
  Notions for the proofs. The name and attributes of the element a path leads to do not
  depend on the markers; a path is attached when no marker lies on it.
\<close>

definition sig_at :: "node \<Rightarrow> path \<Rightarrow> (string \<times> (string \<times> string) list) option" where
  "sig_at x p = (case node_at True x p of None \<Rightarrow> None | Some (l, y) \<Rightarrow> tag_sig y)"



section \<open>Sample inputs\<close>

text \<open>
  A converted paper: a front paragraph with one citation, and one section with a heading
  and a paragraph that holds two citations and a formula.
\<close>

definition sample_paper :: node where
  "sample_paper =
     Tag ''[document]'' []
       [Tag ''std'' []
          [Tag ''p'' []
             [Str ''We cite '', Tag ''cit'' [] [Tag ''ref'' [(''target'', ''bid7'')] []],
              Str '' here.''],
           Tag ''div0'' []
             [Tag ''head'' [] [Str ''Intro''],
              Tag ''p'' []
                [Str ''See '', Tag ''cit'' [] [Tag ''ref'' [(''target'', ''bid3'')] []],
                 Str '' and '', Tag ''formula'' [] [Str ''x+y''], Str '' '',
                 Tag ''cit'' [] [Tag ''ref'' [(''target'', ''bid12'')] []], Str ''.'']]]]"

text \<open>A paragraph with an empty line in it.\<close>

definition blank_lines_paper :: node where
  "blank_lines_paper =
     Tag ''[document]'' [] [Tag ''p'' [] [Str (''a'' @ [CHR 0x0A, CHR 0x0A] @ ''b'')]]"


text \<open>A paragraph with a footnote and a float in it.\<close>

definition note_paper :: node where
  "note_paper =
     Tag ''[document]'' []
       [Tag ''p'' []
          [Str ''Hello'', Tag ''note'' [] [Str ''secret''], Tag ''float'' [] [Str ''fig''],
           Str '' world'']]"


text \<open>
  A front matter of four paragraphs and no year node: the abstract, two paragraphs that
  begin with four digits, and one between them that does not.
\<close>

definition years_paper :: node where
  "years_paper =
     Tag ''[document]'' []
       [Tag ''p'' [] [Str ''This long paragraph is the abstract.''],
        Tag ''p'' [] [Str ''2019 a''],
        Tag ''p'' [] [Str ''x''],
        Tag ''p'' [] [Str ''2020 b'']]"


text \<open>
  A directory listing read through \<^verbatim>\<open>read_file\<close>: \<^verbatim>\<open>a.tex\<close> has no marker, \<^verbatim>\<open>d.tex\<close>
  cannot be read, every other file holds the marker.
\<close>

definition sample_listing_read :: "string \<Rightarrow> io_error + string" where
  "sample_listing_read tfn =
     (if tfn = ''a.tex'' then Inr ''no marker here''
      else if tfn = ''d.tex'' then Inl OSError
      else Inr (backslash # ''begin{document} text''))"


text \<open>
  The libraries on a buffer of at most one ASCII byte, and on the gzip file whose content is
  the escape byte alone. \<^verbatim>\<open>magic\<close> labels so short a buffer \<^verbatim>\<open>binary\<close>. Python decodes the
  empty buffer to the empty string whatever the label, and has no codec of the name
  \<^verbatim>\<open>binary\<close>. \<^verbatim>\<open>chardet\<close> has no guess for the empty buffer and for the escape byte, and
  answers \<^verbatim>\<open>ascii\<close> for another ASCII byte. Reading in text mode turns a carriage return into
  a line feed. Any other buffer, label or file is outside the sample, which answers OSError
  for it where it can.
\<close>

definition esc_gz :: bytes where
  "esc_gz =
     [CHR 0x1F, CHR 0x8B, CHR 0x08, CHR 0x00, CHR 0x00, CHR 0x00, CHR 0x00, CHR 0x00, CHR 0x02,
      CHR 0x03, CHR 0x93, CHR 0x06, CHR 0x00, CHR 0x61, CHR 0x26, CHR 0x67, CHR 0x58, CHR 0x01,
      CHR 0x00, CHR 0x00, CHR 0x00]"

definition short_ascii :: "bytes \<Rightarrow> bool" where
  "short_ascii blob =
     (case blob of [] \<Rightarrow> True | [c] \<Rightarrow> (of_char c :: nat) < 128 | _ \<Rightarrow> False)"

definition short_buffer_codecs :: codecs where
  "short_buffer_codecs =
     \<lparr> text_read = (\<lambda>blob.
         if short_ascii blob then Inr (map (\<lambda>c. if c = CHR 0x0D then CHR 0x0A else c) blob)
         else Inl OSError),
       mime_encoding = (\<lambda>blob. ''binary''),
       decode_strict = (\<lambda>encoding blob.
         if blob = [] then Inr []
         else if encoding = ''binary'' then Inl LookupError
         else if encoding = ''ascii'' \<and> short_ascii blob then Inr blob
         else Inl OSError),
       chardet_detect = (\<lambda>blob.
         if blob = [] \<or> blob = [CHR 0x1B] then None else Some ''ascii''),
       decode_replace = (\<lambda>encoding blob.
         if blob = [] then Inr []
         else if encoding = ''binary'' then Inl LookupError
         else if encoding = ''ascii'' \<and> short_ascii blob then Inr blob
         else Inl OSError),
       gzip_read = (\<lambda>file. if file = esc_gz then Inr [CHR 0x1B] else Inl OSError) \<rparr>"




section \<open>Properties of the author parser\<close>

lemma suffix_token_entry:
  "name \<in> set suffix_tokens \<Longrightarrow> name_entry minimal name = Inl IndexError"
  by (auto simp: suffix_tokens_def name_entry_def py_split_def is_space_def)

lemma name_entry_error: "name_entry minimal name = Inl e \<Longrightarrow> e = IndexError"
  by (auto simp: name_entry_def Let_def split: if_splits)

lemma author_loop_error:
  "\<exists>n \<in> set names. n \<in> set suffix_tokens \<Longrightarrow> author_loop minimal names acc = Inl IndexError"
proof (induction names arbitrary: acc)
  case Nil
  then show ?case by simp
next
  case (Cons name names)
  show ?case
  proof (cases "name_entry minimal name")
    case (Inl e)
    then show ?thesis using name_entry_error [OF Inl] by simp
  next
    case (Inr a)
    then have "name \<notin> set suffix_tokens"
      using suffix_token_entry [of name minimal] by auto
    then have "\<exists>n \<in> set names. n \<in> set suffix_tokens"
      using Cons.prems by auto
    then show ?thesis using Inr Cons.IH by simp
  qed
qed

text \<open>
  Claim C10. Whenever some comma-separated fragment of the author text (after the
  \<^verbatim>\<open>and\<close> rewrite) consists, once trimmed, solely of a suffix token, \<^verbatim>\<open>process_authors\<close>
  raises IndexError instead of returning: the suffix is popped, no name token remains,
  and \<^verbatim>\<open>name_parts[0]\<close> fails.
\<close>

theorem process_authors_suffix_only_raises:
  assumes "\<exists>f \<in> set (author_fragments author_text). py_strip f \<in> set suffix_tokens"
  shows "process_authors author_text minimal = Inl IndexError"
proof -
  from assms obtain f where f: "f \<in> set (author_fragments author_text)"
    and s: "py_strip f \<in> set suffix_tokens" by blast
  from s have "py_strip f \<noteq> []" by (auto simp: suffix_tokens_def)
  with f have "py_strip f \<in> set (author_names author_text)"
    by (auto simp: author_names_def)
  with s have "\<exists>n \<in> set (author_names author_text). n \<in> set suffix_tokens" by blast
  then show ?thesis unfolding process_authors_def by (rule author_loop_error)
qed

theorem process_authors_suffix_only_raises_witness:
  "process_authors ''Jr'' False = Inl IndexError \<and> process_authors ''Ann Lee, Jr'' True = Inl IndexError"
proof -
  have a: "\<exists>f \<in> set (author_fragments ''Jr''). py_strip f \<in> set suffix_tokens"
    by (simp add: author_fragments_def sub_space_def is_space_def py_strip_def suffix_tokens_def)
  have b: "\<exists>f \<in> set (author_fragments ''Ann Lee, Jr''). py_strip f \<in> set suffix_tokens"
    by (simp add: author_fragments_def sub_space_def is_space_def py_strip_def suffix_tokens_def)
  show ?thesis
    using process_authors_suffix_only_raises [OF a, of False]
      process_authors_suffix_only_raises [OF b, of True] by simp
qed

section \<open>Mention spans\<close>

lemma match_bid_prefix:
  assumes "match_bid s = Some tok"
  shows "take (length tok) s = tok" and "bid_token tok" and "length tok \<le> length s"
    and "0 < length tok"
proof -
  let ?ds = "takeWhile is_digit (drop 3 s)"
  from assms have b: "take 3 s = ''BID''" and d: "?ds \<noteq> []" and t: "tok = ''BID'' @ ?ds"
    by (auto simp: match_bid_def split: if_splits)
  have ds: "take (length ?ds) (drop 3 s) = ?ds"
    by (metis takeWhile_eq_take)
  have "take (3 + length ?ds) s = take 3 s @ take (length ?ds) (drop 3 s)"
    by (simp add: take_add)
  moreover have "length tok = 3 + length ?ds" using t by simp
  ultimately show "take (length tok) s = tok" using b ds t by metis
  then show "length tok \<le> length s"
    by (metis length_take min.cobounded1 min.commute)
  show "bid_token tok" using d t by (simp add: bid_token_def list_all_iff) (meson set_takeWhileD)
  show "0 < length tok" using t by simp
qed

lemma cite_spans_from_props:
  "(a, b, t) \<in> set (cite_spans_from i s) \<Longrightarrow>
     i \<le> a \<and> b = a + length t \<and> b \<le> i + length s \<and> take (length t) (drop (a - i) s) = t \<and> bid_token t"
proof (induction i s arbitrary: a b t rule: cite_spans_from.induct)
  case (1 i)
  then show ?case by simp
next
  case (2 i c cs)
  show ?case
  proof (cases "match_bid (c # cs)")
    case None
    with 2 have "(a, b, t) \<in> set (cite_spans_from (Suc i) cs)" by simp
    from "2.IH"(1)[OF None this]
    have ih: "Suc i \<le> a" "b = a + length t" "b \<le> Suc i + length cs"
      "take (length t) (drop (a - Suc i) cs) = t" "bid_token t" by auto
    have "a - i = Suc (a - Suc i)" using ih(1) by arith
    then have "drop (a - i) (c # cs) = drop (a - Suc i) cs" by simp
    then show ?thesis using ih by auto
  next
    case (Some tok)
    note m = match_bid_prefix [OF Some]
    have dr: "drop (length tok - 1) cs = drop (length tok) (c # cs)"
      using m(4) by (cases "length tok") auto
    from 2 Some have "(a, b, t) = (i, i + length tok, tok) \<or>
        (a, b, t) \<in> set (cite_spans_from (i + length tok) (drop (length tok - 1) cs))" by simp
    then show ?thesis
    proof
      assume "(a, b, t) = (i, i + length tok, tok)"
      then show ?thesis using m by auto
    next
      assume "(a, b, t) \<in> set (cite_spans_from (i + length tok) (drop (length tok - 1) cs))"
      from "2.IH"(2)[OF Some this]
      have ih: "i + length tok \<le> a" "b = a + length t"
        "b \<le> i + length tok + length (drop (length tok - 1) cs)"
        "take (length t) (drop (a - (i + length tok)) (drop (length tok - 1) cs)) = t" "bid_token t"
        by auto
      have "a - (i + length tok) + length tok = a - i" using ih(1) by arith
      then have "take (length t) (drop (a - i) (c # cs)) = t"
        using ih(4) unfolding dr by (simp add: add.commute)
      moreover have "b \<le> i + length (c # cs)"
        using ih(3) m(3) unfolding dr by simp
      ultimately show ?thesis using ih by auto
    qed
  qed
qed

lemma cite_spans_from_ordered:
  "sorted (map fst (cite_spans_from i s)) \<and> non_overlapping (cite_spans_from i s)"
proof (induction i s rule: cite_spans_from.induct)
  case (1 i)
  then show ?case by simp
next
  case (2 i c cs)
  show ?case
  proof (cases "match_bid (c # cs)")
    case None
    with "2.IH"(1) show ?thesis by simp
  next
    case (Some tok)
    have "\<forall>sp \<in> set (cite_spans_from (i + length tok) (drop (length tok - 1) cs)).
            i + length tok \<le> fst sp"
      using cite_spans_from_props by (metis prod.collapse)
    with "2.IH"(2)[OF Some] Some show ?thesis by auto
  qed
qed

lemma cite_spans_block_ok:
  "block_ok \<lparr> tb_text = txt, tb_mention_spans = cite_spans txt, tb_section = sec \<rparr>"
proof -
  have "span_ok txt sp" if "sp \<in> set (cite_spans txt)" for sp
  proof -
    obtain a b t where sp: "sp = (a, b, t)" by (cases sp) auto
    from cite_spans_from_props [of a b t 0 "txt"] that sp
    show ?thesis by (auto simp: span_ok_def cite_spans_def)
  qed
  then show ?thesis
    using cite_spans_from_ordered [of 0 "txt"] by (simp add: block_ok_def cite_spans_def)
qed


lemma process_paragraph_block_ok:
  "process_paragraph soup p sec = Inr (b, soup') \<Longrightarrow> block_ok b"
  by (auto simp: process_paragraph_def Let_def cite_spans_block_ok split: sum.splits)

lemma abstract_block_ok:
  assumes "abstract_block soup p = Inr (b, soup')"
  shows "block_ok b"
proof (cases "num_contents soup p = 1")
  case True
  with assms have "tb_mention_spans b = []" by (auto simp: abstract_block_def)
  then show ?thesis by (simp add: block_ok_def)
next
  case False
  with assms obtain soup1 where
    "b = \<lparr> tb_text = sub_space (text_of soup1 p),
           tb_mention_spans = cite_spans (sub_space (text_of soup1 p)), tb_section = None \<rparr>"
    by (auto simp: abstract_block_def Let_def split: sum.splits)
  then show ?thesis by (simp add: cite_spans_block_ok)
qed

lemma p_loop_ok:
  "p_loop ps sec soup body = Inr (soup', body') \<Longrightarrow> \<forall>b \<in> set body. block_ok b
     \<Longrightarrow> \<forall>b \<in> set body'. block_ok b"
proof (induction ps arbitrary: soup body)
  case Nil
  then show ?case by simp
next
  case (Cons p ps)
  from Cons.prems(1) obtain blk soup1 where
    pp: "process_paragraph soup p sec = Inr (blk, soup1)"
    and rest: "p_loop ps sec soup1 (body @ [blk]) = Inr (soup', body')"
    by (auto split: sum.splits)
  have "\<forall>b \<in> set (body @ [blk]). block_ok b"
    using Cons.prems(2) process_paragraph_block_ok [OF pp] by auto
  from Cons.IH [OF rest this] show ?case .
qed

lemma el_loop_ok:
  "el_loop els soup sec body = Inr (soup', sec', body') \<Longrightarrow> \<forall>b \<in> set body. block_ok b
     \<Longrightarrow> \<forall>b \<in> set body'. block_ok b"
proof (induction els arbitrary: soup sec body)
  case Nil
  then show ?case by simp
next
  case (Cons el els)
  consider (head) "tag_name soup el = Some ''head''"
    | (p) "tag_name soup el = Some ''p''"
    | (div1) "tag_name soup el = Some ''div1''"
    | (other) "tag_name soup el \<noteq> Some ''head''" "tag_name soup el \<noteq> Some ''p''"
        "tag_name soup el \<noteq> Some ''div1''"
    by blast
  then show ?case
  proof cases
    case head
    with Cons.prems(1) have "el_loop els soup (text_of soup el) body = Inr (soup', sec', body')"
      by simp
    from Cons.IH [OF this Cons.prems(2)] show ?thesis .
  next
    case p
    with Cons.prems(1) obtain blk soup1 where
      pp: "process_paragraph soup el sec = Inr (blk, soup1)"
      and rest: "el_loop els soup1 sec (body @ [blk]) = Inr (soup', sec', body')"
      by (auto split: sum.splits)
    have "\<forall>b \<in> set (body @ [blk]). block_ok b"
      using Cons.prems(2) process_paragraph_block_ok [OF pp] by auto
    from Cons.IH [OF rest this] show ?thesis .
  next
    case div1
    with Cons.prems(1) obtain h soup1 body1 where
      pl: "p_loop (find_all soup el ''p'') (text_of soup h) soup body = Inr (soup1, body1)"
      and rest: "el_loop els soup1 (text_of soup h) body1 = Inr (soup', sec', body')"
      by (auto split: sum.splits option.splits)
    from Cons.IH [OF rest p_loop_ok [OF pl Cons.prems(2)]] show ?thesis .
  next
    case other
    with Cons.prems(1) have "el_loop els soup sec body = Inr (soup', sec', body')" by simp
    from Cons.IH [OF this Cons.prems(2)] show ?thesis .
  qed
qed

lemma div_loop_ok:
  "div_loop ds soup sec body = Inr (soup', sec', body') \<Longrightarrow> \<forall>b \<in> set body. block_ok b
     \<Longrightarrow> \<forall>b \<in> set body'. block_ok b"
proof (induction ds arbitrary: soup sec body)
  case Nil
  then show ?case by simp
next
  case (Cons d ds)
  from Cons.prems(1) obtain soup1 sec1 body1 where
    el: "el_loop (child_tags soup d) soup sec body = Inr (soup1, sec1, body1)"
    and rest: "div_loop ds (decompose soup1 d) sec1 body1 = Inr (soup', sec', body')"
    by (auto split: sum.splits)
  from Cons.IH [OF rest el_loop_ok [OF el Cons.prems(2)]] show ?case .
qed

lemma body_stage_ok:
  "body_stage soup = Inr (m, soup', body) \<Longrightarrow> \<forall>b \<in> set body. block_ok b"
  by (auto simp: body_stage_def Let_def split: sum.splits dest!: div_loop_ok)

lemma head_paragraphs_ok:
  assumes "head_paragraphs soup ps title authors year = Inr (Block b, title', authors', year')"
  shows "block_ok b"
proof -
  from assms have ne: "ps \<noteq> []" by (auto simp: head_paragraphs_def)
  let ?p = "ps ! index_of_max (map (\<lambda>p. length (text_of soup p)) ps)"
  from assms ne obtain blk soup1 where ab: "abstract_block soup ?p = Inr (blk, soup1)"
    by (cases "abstract_block soup ?p") (auto simp: head_paragraphs_def Let_def)
  with assms ne have "b = blk"
    by (simp add: head_paragraphs_def Let_def split: sum.splits if_splits)
  with abstract_block_ok [OF ab] show ?thesis by simp
qed

text \<open>
  Claim C1. In every block the extraction produces, for the abstract or for a body
  paragraph, every mention span \<open>(start, end, token)\<close> satisfies \<^verbatim>\<open>text[start:end] == token\<close>
  with a token matching \<^verbatim>\<open>BID\d+\<close>, and the spans of the block ascend by start and do not
  overlap.
\<close>

theorem mention_spans_consistent:
  assumes "extract_document arxiv_id soup = Inr entry"
  shows "(\<forall>b \<in> set (body_text entry). block_ok b) \<and>
         (\<forall>b. Block b \<in> set (abstract entry) \<longrightarrow> block_ok b)"
proof -
  from assms obtain m soup1 body where
    bs: "body_stage soup = Inr (m, soup1, body)"
    and hs: "head_stage arxiv_id m soup1 body = Inr entry"
    by (cases "body_stage soup") (auto simp: extract_document_def)
  from hs obtain authors where ha: "head_authors soup1 = Inr authors"
    by (cases "head_authors soup1") (auto simp: head_stage_def)
  from hs ha obtain x t a y where
    hp: "head_paragraphs soup1 (find_all soup1 [] ''p'') (head_title soup1)
           authors (head_year soup1) = Inr (x, t, a, y)"
    by (cases "head_paragraphs soup1 (find_all soup1 [] ''p'') (head_title soup1)
           authors (head_year soup1)") (auto simp: head_stage_def)
  from hs ha hp have b: "body_text entry = body" and ab: "abstract entry = [x]"
    by (auto simp: head_stage_def)
  have "block_ok blk" if "x = Block blk" for blk
    using hp that head_paragraphs_ok by blast
  then show ?thesis
    using body_stage_ok [OF bs] b ab by auto
qed


theorem mention_spans_consistent_witness:
  "extract_document ''1234'' sample_paper =
     Inr \<lparr> paper_id = ''1234'',
           metadata = \<lparr> md_title = [], md_authors = [], md_year = [] \<rparr>,
           abstract = [Block \<lparr> tb_text = ''We cite BID7 here.'',
                               tb_mention_spans = [(8, 12, ''BID7'')], tb_section = None \<rparr>],
           body_text = [\<lparr> tb_text = ''See BID3 and FORMULA BID12.'',
                           tb_mention_spans = [(4, 8, ''BID3''), (21, 26, ''BID12'')],
                           tb_section = Some ''Intro'' \<rparr>],
           bib_entries = [] \<rparr> \<and>
   block_ok \<lparr> tb_text = ''We cite BID7 here.'', tb_mention_spans = [(8, 12, ''BID7'')],
              tb_section = None \<rparr> \<and>
   block_ok \<lparr> tb_text = ''See BID3 and FORMULA BID12.'',
              tb_mention_spans = [(4, 8, ''BID3''), (21, 26, ''BID12'')],
              tb_section = Some ''Intro'' \<rparr>"
proof -
  have e: "extract_document ''1234'' sample_paper =
     Inr \<lparr> paper_id = ''1234'',
           metadata = \<lparr> md_title = [], md_authors = [], md_year = [] \<rparr>,
           abstract = [Block \<lparr> tb_text = ''We cite BID7 here.'',
                               tb_mention_spans = [(8, 12, ''BID7'')], tb_section = None \<rparr>],
           body_text = [\<lparr> tb_text = ''See BID3 and FORMULA BID12.'',
                           tb_mention_spans = [(4, 8, ''BID3''), (21, 26, ''BID12'')],
                           tb_section = Some ''Intro'' \<rparr>],
           bib_entries = [] \<rparr>"
    by code_simp
  from mention_spans_consistent [OF e] show ?thesis using e by simp
qed


section \<open>Whitespace of a paragraph\<close>

text \<open>
  Claim C4, as stated, fails: a paragraph whose assembled text holds an empty line yields a
  text with two spaces side by side. \<^verbatim>\<open>re.sub(r'\s', ' ', ...)\<close> replaces each whitespace
  character on its own.
\<close>

theorem whitespace_runs_kept:
  "process_paragraph blank_lines_paper [0] [] =
     Inr (\<lparr> tb_text = ''a  b'', tb_mention_spans = [], tb_section = Some [] \<rparr>, blank_lines_paper)
   \<and> has_ws_run ''a  b''"
  by code_simp


lemma sub_space_props:
  "length (sub_space s) = length s"
  "i < length s \<Longrightarrow> sub_space s ! i = (if is_space (s ! i) then CHR '' '' else s ! i)"
  "c \<in> set (sub_space s) \<Longrightarrow> is_space c \<Longrightarrow> c = CHR '' ''"
  "filter (\<lambda>c. \<not> is_space c) (sub_space s) = filter (\<lambda>c. \<not> is_space c) s"
proof -
  show "length (sub_space s) = length s" by (simp add: sub_space_def)
  show "i < length s \<Longrightarrow> sub_space s ! i = (if is_space (s ! i) then CHR '' '' else s ! i)"
    by (simp add: sub_space_def)
  show "c \<in> set (sub_space s) \<Longrightarrow> is_space c \<Longrightarrow> c = CHR '' ''"
    by (auto simp: sub_space_def)
  have sp: "is_space (CHR '' '')" by (simp add: is_space_def)
  show "filter (\<lambda>c. \<not> is_space c) (sub_space s) = filter (\<lambda>c. \<not> is_space c) s"
    unfolding sub_space_def by (induction s) (simp_all add: sp)
qed

text \<open>
  Claim C4, amended. For every paragraph node the text of the block is the assembled text
  (the text of the paragraph after the sentinel replacements) with every whitespace
  character replaced by exactly one space, in place: the length is that of the assembled
  text, every position holds a space where the assembled text has whitespace and the same
  character otherwise, no whitespace other than the space is left, and the other characters
  keep their order.
\<close>

theorem paragraph_whitespace_replaced:
  assumes "process_paragraph soup para_el section_name = Inr (b, soup')"
  shows "\<exists>soup1. replace_sentinels para_el soup = Inr soup1 \<and>
           length (tb_text b) = length (text_of soup1 para_el) \<and>
           (\<forall>i < length (tb_text b).
              tb_text b ! i = (if is_space (text_of soup1 para_el ! i) then CHR '' ''
                               else text_of soup1 para_el ! i)) \<and>
           (\<forall>c \<in> set (tb_text b). is_space c \<longrightarrow> c = CHR '' '') \<and>
           filter (\<lambda>c. \<not> is_space c) (tb_text b) =
             filter (\<lambda>c. \<not> is_space c) (text_of soup1 para_el)"
proof -
  from assms obtain soup1 where rs: "replace_sentinels para_el soup = Inr soup1"
    and t: "tb_text b = sub_space (text_of soup1 para_el)"
    by (cases "replace_sentinels para_el soup") (auto simp: process_paragraph_def Let_def)
  show ?thesis
  proof (intro exI conjI)
    show "replace_sentinels para_el soup = Inr soup1" by (rule rs)
    show "length (tb_text b) = length (text_of soup1 para_el)"
      unfolding t by (rule sub_space_props(1))
    show "\<forall>i < length (tb_text b).
              tb_text b ! i = (if is_space (text_of soup1 para_el ! i) then CHR '' ''
                               else text_of soup1 para_el ! i)"
      unfolding t using sub_space_props(1,2) by metis
    show "\<forall>c \<in> set (tb_text b). is_space c \<longrightarrow> c = CHR '' ''"
      unfolding t using sub_space_props(3) by blast
    show "filter (\<lambda>c. \<not> is_space c) (tb_text b) =
             filter (\<lambda>c. \<not> is_space c) (text_of soup1 para_el)"
      unfolding t by (rule sub_space_props(4))
  qed
qed

theorem paragraph_whitespace_replaced_witness:
  "process_paragraph blank_lines_paper [0] [] =
     Inr (\<lparr> tb_text = ''a  b'', tb_mention_spans = [], tb_section = Some [] \<rparr>, blank_lines_paper)
   \<and> replace_sentinels [0] blank_lines_paper = Inr blank_lines_paper
   \<and> length ''a  b'' = length (text_of blank_lines_paper [0])"
proof -
  have e: "process_paragraph blank_lines_paper [0] [] =
     Inr (\<lparr> tb_text = ''a  b'', tb_mention_spans = [], tb_section = Some [] \<rparr>, blank_lines_paper)"
    by code_simp
  from paragraph_whitespace_replaced [OF e] obtain soup1 where
    r: "replace_sentinels [0] blank_lines_paper = Inr soup1"
    and l: "length ''a  b'' = length (text_of soup1 [0])" by auto
  have "replace_sentinels [0] blank_lines_paper = Inr blank_lines_paper" by code_simp
  with r have "soup1 = blank_lines_paper" by simp
  with e r l show ?thesis by simp
qed


section \<open>Floats and notes of a paragraph\<close>

text \<open>
  Claim C3 at a paragraph with a note and a float: \<^verbatim>\<open>process_paragraph\<close> reads the text
  before it decomposes them, so the text of both is in the block.
\<close>

theorem note_text_kept:
  "process_paragraph note_paper [0] ''Intro'' =
     Inr (\<lparr> tb_text = ''Hellosecretfig world'', tb_mention_spans = [],
             tb_section = Some ''Intro'' \<rparr>,
          Tag ''[document]'' []
            [Tag ''p'' []
               [Str ''Hello'', Decomposed (Tag ''note'' [] [Str ''secret'']),
                Decomposed (Tag ''float'' [] [Str ''fig'']), Str '' world'']])"
  by code_simp


section \<open>The year fallback\<close>

text \<open>
  Claim C5 at a front matter with two paragraphs that begin with four digits: the loop has
  no \<^verbatim>\<open>break\<close>, so the second one overwrites the year and is deleted as well.
\<close>

theorem year_scan_goes_on:
  "extract_document ''1'' years_paper =
     Inr \<lparr> paper_id = ''1'',
           metadata = \<lparr> md_title = ''x'', md_authors = [], md_year = ''2020 b'' \<rparr>,
           abstract = [Block \<lparr> tb_text = ''This long paragraph is the abstract.'',
                               tb_mention_spans = [], tb_section = None \<rparr>],
           body_text = [], bib_entries = [] \<rparr>
   \<and> year_loop years_paper [[1], [2], [3]] 0 [] = (''2020 b'', [[2]])"
  by code_simp


section \<open>The abstract field\<close>

text \<open>
  Claim C6, as stated, fails for a tree without paragraphs: the one element of the abstract
  field is the initial \<^verbatim>\<open>[]\<close>, not a block.
\<close>

theorem abstract_of_empty_tree:
  "extract_document ''1'' (Tag ''[document]'' [] []) =
     Inr \<lparr> paper_id = ''1'',
           metadata = \<lparr> md_title = [], md_authors = [], md_year = [] \<rparr>,
           abstract = [EmptyList], body_text = [], bib_entries = [] \<rparr>"
  by code_simp


text \<open>
  Claim C6, amended. Whenever the extraction returns, the abstract field is a sequence of
  one element: the empty list when no paragraph is left outside the sections, and otherwise
  a block whose section is None.
\<close>

theorem abstract_single_element:
  assumes "extract_document arxiv_id soup = Inr entry"
  shows "(remaining_paragraphs soup = [] \<longrightarrow> abstract entry = [EmptyList]) \<and>
         (remaining_paragraphs soup \<noteq> [] \<longrightarrow>
            (\<exists>b. abstract entry = [Block b] \<and> tb_section b = None))"
proof -
  from assms obtain m soup1 body where
    bs: "body_stage soup = Inr (m, soup1, body)"
    and hs: "head_stage arxiv_id m soup1 body = Inr entry"
    by (cases "body_stage soup") (auto simp: extract_document_def)
  let ?ps = "find_all soup1 [] ''p''"
  have rp: "remaining_paragraphs soup = ?ps" using bs by (simp add: remaining_paragraphs_def)
  from hs obtain authors where ha: "head_authors soup1 = Inr authors"
    by (cases "head_authors soup1") (auto simp: head_stage_def)
  from hs ha obtain x t a y where
    hp: "head_paragraphs soup1 ?ps (head_title soup1) authors (head_year soup1) = Inr (x, t, a, y)"
    by (cases "head_paragraphs soup1 ?ps (head_title soup1) authors (head_year soup1)")
       (auto simp: head_stage_def)
  from hs ha hp have ab: "abstract entry = [x]" by (auto simp: head_stage_def)
  have "x = EmptyList" if "?ps = []"
    using hp that by (simp add: head_paragraphs_def)
  moreover have "\<exists>b. x = Block b \<and> tb_section b = None" if ne: "?ps \<noteq> []"
  proof -
    let ?p = "?ps ! index_of_max (map (\<lambda>p. length (text_of soup1 p)) ?ps)"
    from hp ne obtain blk soup2 where abk: "abstract_block soup1 ?p = Inr (blk, soup2)"
      by (cases "abstract_block soup1 ?p") (auto simp: head_paragraphs_def Let_def)
    with hp ne have "x = Block blk"
      by (simp add: head_paragraphs_def Let_def split: sum.splits if_splits)
    moreover from abk have "tb_section blk = None"
      by (auto simp: abstract_block_def Let_def split: sum.splits if_splits)
    ultimately show ?thesis by simp
  qed
  ultimately show ?thesis using rp ab by auto
qed

theorem abstract_single_element_witness:
  "remaining_paragraphs sample_paper = [[0, 0]] \<and> remaining_paragraphs (Tag ''[document]'' [] []) = [] \<and>
   abstract \<lparr> paper_id = ''1'',
           metadata = \<lparr> md_title = [], md_authors = [], md_year = [] \<rparr>,
           abstract = [EmptyList], body_text = [], bib_entries = [] \<rparr> = [EmptyList]"
proof -
  have e: "extract_document ''1'' (Tag ''[document]'' [] []) =
     Inr \<lparr> paper_id = ''1'',
           metadata = \<lparr> md_title = [], md_authors = [], md_year = [] \<rparr>,
           abstract = [EmptyList], body_text = [], bib_entries = [] \<rparr>"
    by code_simp
  have r: "remaining_paragraphs sample_paper = [[0, 0]]" by code_simp
  have r0: "remaining_paragraphs (Tag ''[document]'' [] []) = []" by code_simp
  from abstract_single_element [OF e] r r0 show ?thesis by simp
qed



section \<open>The main file of a bundle\<close>

lemma tex_scan_main:
  "fst (tex_scan rd listing main ign) =
     (if tex_candidates rd listing = [] then main else Some (last (tex_candidates rd listing)))"
proof (induction listing arbitrary: main ign)
  case Nil
  then show ?case by (simp add: tex_candidates_def)
next
  case (Cons tfn tfns)
  show ?case
  proof (cases "TEX_EXT (splitext_ext tfn)")
    case False
    then show ?thesis using Cons.IH [of main "ign @ [tfn]"] by (simp add: tex_candidates_def)
  next
    case True
    show ?thesis
    proof (cases "rd tfn")
      case (Inl e)
      then show ?thesis using True Cons.IH [of main ign] by (simp add: tex_candidates_def)
    next
      case (Inr cntnt)
      show ?thesis
      proof (cases "main_tex_search cntnt")
        case False
        then show ?thesis using True Inr Cons.IH [of main ign] by (simp add: tex_candidates_def)
      next
        case m: True
        then show ?thesis using True Inr Cons.IH [of "Some tfn" ign]
          by (simp add: tex_candidates_def)
      qed
    qed
  qed
qed

text \<open>
  Claim C7. When a listing holds at least one file whose extension matches \<^verbatim>\<open>.tex\<close> in any
  case and whose content, as \<^verbatim>\<open>read_file\<close> returns it, holds the \<^verbatim>\<open>\begin{document}\<close>
  marker, the locator returns the last such file of the listing.
\<close>

theorem locate_main_last_match:
  assumes "tex_candidates rd listing \<noteq> []"
  shows "locate_main rd listing = Some (last (tex_candidates rd listing))"
proof -
  obtain main ign where ts: "tex_scan rd listing None [] = (main, ign)"
    by (cases "tex_scan rd listing None []") auto
  with tex_scan_main [of rd listing None "[]"] assms
  have "main = Some (last (tex_candidates rd listing))" by simp
  with ts show ?thesis by (simp add: locate_main_def)
qed

theorem locate_main_last_match_witness:
  "tex_candidates sample_listing_read [''a.tex'', ''b.tex'', ''notes.txt'', ''c.TeX'', ''d.tex'']
     = [''b.tex'', ''c.TeX''] \<and>
   locate_main sample_listing_read [''a.tex'', ''b.tex'', ''notes.txt'', ''c.TeX'', ''d.tex'']
     = Some ''c.TeX''"
proof -
  have c: "tex_candidates sample_listing_read
             [''a.tex'', ''b.tex'', ''notes.txt'', ''c.TeX'', ''d.tex''] = [''b.tex'', ''c.TeX'']"
    by code_simp
  then have "tex_candidates sample_listing_read
             [''a.tex'', ''b.tex'', ''notes.txt'', ''c.TeX'', ''d.tex''] \<noteq> []" by simp
  from locate_main_last_match [OF this] c show ?thesis by simp
qed


section \<open>Citation macros\<close>

lemma ci_prefix_Cons:
  "ci_prefix (p # ps) s = (case s of [] \<Rightarrow> False | x # xs \<Rightarrow> lower_char x = lower_char p \<and> ci_prefix ps xs)"
  by (cases s) (auto simp: ci_prefix_def lower_def)

lemma natbib_no_suffix_at_brace:
  "natbib_alternatives natbib_suffixes (CHR ''{'' # r) = None"
  by (simp add: natbib_suffixes_def ci_prefix_Cons lower_char_def)

lemma canonical_no_match:
  assumes "canonical_cites (c # cs)"
  shows "natbib_match (c # cs) = None"
proof (cases "ci_prefix (backslash # ''cite'') (c # cs)")
  case False
  then show ?thesis by (simp add: natbib_match_def)
next
  case True
  with assms obtain r where "drop 4 cs = CHR ''{'' # r"
    by (cases "drop 4 cs") auto
  then have "drop 5 (c # cs) = CHR ''{'' # r" by simp
  then show ?thesis using natbib_no_suffix_at_brace by (simp add: natbib_match_def)
qed

text \<open>
  Claim C9. On a text whose citation macros are all plain \<^verbatim>\<open>\cite{...}\<close> invocations the
  citation-macro canonicalization returns the text unchanged; the whole normalization then
  does what the bibliography-item rewrite alone does.
\<close>

theorem canonical_cites_unchanged:
  assumes "canonical_cites s"
  shows "fix_natbib s = s \<and> normalize_macros s = fix_bibopt s"
proof -
  from assms have "fix_natbib s = s"
  proof (induction s)
    case Nil
    then show ?case by simp
  next
    case (Cons c cs)
    from Cons.prems have "canonical_cites cs" by simp
    with Cons.IH have "fix_natbib cs = cs" by simp
    with canonical_no_match [OF Cons.prems] show ?case by simp
  qed
  then show ?thesis by (simp add: normalize_macros_def PRE_FIX_NATBIB_def PRE_FIX_BIBOPT_def)
qed

theorem canonical_cites_unchanged_witness:
  "canonical_cites (''See '' @ backslash # ''cite{a,b} and '' @ backslash # ''Cite{c}.'') \<and>
   fix_natbib (''See '' @ backslash # ''cite{a,b} and '' @ backslash # ''Cite{c}.'') =
     ''See '' @ backslash # ''cite{a,b} and '' @ backslash # ''Cite{c}.''"
proof -
  have c: "canonical_cites (''See '' @ backslash # ''cite{a,b} and '' @ backslash # ''Cite{c}.'')"
    by code_simp
  from canonical_cites_unchanged [OF c] c show ?thesis by simp
qed


section \<open>Reading gzipped files\<close>

text \<open>
  Claim C8 on the gzip path. When Python has no codec for the encoding \<^verbatim>\<open>magic\<close> names and
  \<^verbatim>\<open>chardet\<close> has no guess, \<^verbatim>\<open>read_gzipped_file\<close> returns \<^verbatim>\<open>False\<close>, which is not the empty
  string. A gzip file whose content is the escape byte alone is such an input.
\<close>

theorem gzip_reader_returns_false:
  assumes "gzip_read env file = Inr blob"
    and "decode_strict env (mime_encoding env blob) blob = Inl LookupError"
    and "chardet_detect env blob = None"
  shows "read_gzipped_file env file = Inr PyFalse \<and>
         read_gzipped_file env file \<noteq> Inr (PyStr [])"
  using assms by (simp add: read_gzipped_file_def)

theorem gzip_reader_returns_false_witness:
  "read_gzipped_file short_buffer_codecs esc_gz = Inr PyFalse"
proof -
  have g: "gzip_read short_buffer_codecs esc_gz = Inr [CHR 0x1B]"
    by (simp add: short_buffer_codecs_def)
  have d: "decode_strict short_buffer_codecs (mime_encoding short_buffer_codecs [CHR 0x1B]) [CHR 0x1B]
             = Inl LookupError"
    by (simp add: short_buffer_codecs_def)
  have c: "chardet_detect short_buffer_codecs [CHR 0x1B] = None"
    by (simp add: short_buffer_codecs_def)
  from gzip_reader_returns_false [OF g d c] show ?thesis by simp
qed


section \<open>Extraction from malformed trees\<close>


lemma node_at_snd: "map_option snd (node_at l x p) = map_option snd (node_at True x p)"
  by (induction l x p rule: node_at.induct) auto

lemma node_at_sig:
  "(case node_at l x p of None \<Rightarrow> None | Some (l', y) \<Rightarrow> tag_sig y) = sig_at x p"
proof -
  have "map_option snd (node_at l x p) = map_option snd (node_at True x p)" by (rule node_at_snd)
  then show ?thesis unfolding sig_at_def
    by (cases "node_at l x p"; cases "node_at True x p") auto
qed

lemma sig_at_Replaced [simp]: "sig_at (Replaced s x) q = sig_at x q"
  by (simp add: sig_at_def)

lemma sig_at_Decomposed [simp]: "sig_at (Decomposed x) q = sig_at x q"
  using node_at_sig [of False x q] by (simp add: sig_at_def)

lemma sig_at_Tag_Cons:
  "sig_at (Tag n a cs) (i # q) = (if i < length cs then sig_at (cs ! i) q else None)"
  by (simp add: sig_at_def)


lemma sig_at_wrap:
  assumes "\<And>y r. sig_at (mk y) r = sig_at y r"
  shows "sig_at (wrap mk x p) q = sig_at x q"
  using assms
proof (induction mk x p arbitrary: q rule: wrap.induct)
  case (1 mk s x p)
  then show ?case by simp
next
  case (2 mk x p)
  then show ?case by simp
next
  case (3 mk s p)
  then show ?case by simp
next
  case (4 mk n a cs)
  then show ?case by simp
next
  case (5 mk n a cs i p)
  show ?case
  proof (cases q)
    case Nil
    then show ?thesis by (simp add: sig_at_def)
  next
    case (Cons j q')
    then show ?thesis using 5 by (auto simp: sig_at_Tag_Cons nth_list_update)
  qed
qed

lemma sig_at_replace_with [simp]: "sig_at (replace_with soup p s) q = sig_at soup q"
  unfolding replace_with_def by (rule sig_at_wrap) simp

lemma sig_at_decompose [simp]: "sig_at (decompose soup p) q = sig_at soup q"
  unfolding decompose_def by (rule sig_at_wrap) simp

lemma tag_sig_wrap:
  assumes "\<And>y. tag_sig (mk y) = None"
  shows "tag_sig (wrap mk c p) = (if p = [] then None else tag_sig c)"
  using assms by (induction mk c p rule: wrap.induct) auto
































































end
